theory Spec2Isabelle
  imports Complex_Main
begin

section \<open>TimedQueue: a queue whose pops have a cooldown\<close>

text \<open>
  The class \<^verbatim>\<open>TimedQueue\<close> of \<^verbatim>\<open>crawly.py\<close>. Times are Python floats holding seconds;
  they are modelled as exact rationals. The field \<^verbatim>\<open>self.t\<close> is called \<open>t_last\<close> here.
  The queue is polymorphic in its elements, as the Python list is.
\<close>

record 'a timed_queue =
  elements :: "'a list"
  cooldown :: rat
  time_since :: rat
  t_last :: rat

text \<open>\<^verbatim>\<open>__init__(self, cooldown)\<close>: the argument is in milliseconds.\<close>

definition TimedQueue :: "rat \<Rightarrow> 'a timed_queue" where
  "TimedQueue cooldown_ms =
     \<lparr>elements = [], cooldown = cooldown_ms / 1000, time_since = 0, t_last = 0\<rparr>"

definition set_cooldown :: "rat \<Rightarrow> 'a timed_queue \<Rightarrow> 'a timed_queue" where
  "set_cooldown cool q = q\<lparr>cooldown := cool / 1000\<rparr>"

definition push :: "'a \<Rightarrow> 'a timed_queue \<Rightarrow> 'a timed_queue" where
  "push el q = q\<lparr>elements := elements q @ [el]\<rparr>"

text \<open>
  \<^verbatim>\<open>_pop\<close>: \<^verbatim>\<open>el = self.elements[0]\<close> raises IndexError on the empty list, which the
  method catches to return \<^verbatim>\<open>None\<close>; otherwise \<^verbatim>\<open>self.elements.remove(el)\<close> deletes the
  first entry equal to \<open>el\<close>.
\<close>

definition priv_pop :: "'a timed_queue \<Rightarrow> 'a option \<times> 'a timed_queue" where
  "priv_pop q =
     (case elements q of
        [] \<Rightarrow> (None, q)
      | el # _ \<Rightarrow> (Some el, q\<lparr>elements := remove1 el (elements q)\<rparr>))"

text \<open>
  \<^verbatim>\<open>pop\<close> reads the clock twice: \<open>now1\<close> is the value stored into \<^verbatim>\<open>self.t\<close>, \<open>now2\<close>
  the value the elapsed time is computed from.
\<close>

definition pop :: "rat \<Rightarrow> rat \<Rightarrow> 'a timed_queue \<Rightarrow> 'a option \<times> 'a timed_queue" where
  "pop now1 now2 q =
     (let q1 = q\<lparr>time_since := time_since q + (now2 - t_last q)\<rparr>;
          q2 = q1\<lparr>t_last := now1\<rparr>
      in if time_since q2 > cooldown q2
         then priv_pop (q2\<lparr>time_since := 0\<rparr>)
         else (None, q2))"

text \<open>The time a poll at clock reading \<open>now2\<close> compares with the cooldown.\<close>

definition accumulated :: "rat \<Rightarrow> 'a timed_queue \<Rightarrow> rat" where
  "accumulated now2 q = time_since q + (now2 - t_last q)"

section \<open>The shared state and the drawing API\<close>

text \<open>
  Python lists are mutable objects that several names can refer to, and \<^verbatim>\<open>redraw\<close>
  depends on that. The model keeps an explicit store: \<open>heap\<close> maps the address of a list
  object to its current contents and \<open>fresh\<close> is the next unused address, so
  \<^verbatim>\<open>list.copy()\<close> allocates and a plain assignment shares.

  A draw item is a closure over a call into the graphics library. What matters of it to
  the render loop is whether the call paints or raises: \<open>Paints k\<close> draws shape \<open>k\<close>,
  \<open>Throws k\<close> raises an \<^verbatim>\<open>Exception\<close> when called (say, a shape with bad arguments).
\<close>

type_synonym addr = nat

datatype item = Paints nat | Throws nat

text \<open>
  What the render thread does to the window and the console, in order:
  \<^verbatim>\<open>screen.fill(colour)\<close>, a successful item, the message printed by the handler of
  \<^verbatim>\<open>do_draw\<close>, and \<^verbatim>\<open>pygame.display.flip()\<close>.
\<close>

datatype event = Filled string | Painted nat | Reported nat | Flipped

datatype outcome = Returned | Raised nat

text \<open>
  The queue holds \<^verbatim>\<open>[do_draw, (refresh, ls)]\<close>, where \<open>ls\<close> is a reference to a list.
\<close>

datatype command = Do_draw bool addr

text \<open>
  The class \<^verbatim>\<open>Data\<close>. The field \<^verbatim>\<open>done\<close> is called \<open>done_flag\<close>. The polygon
  fields, the text colour, the window handle and the thread objects play no part below
  and are left out; \<open>effects\<close> records what has been done to the window and the console.
\<close>

record data =
  ms :: int
  color :: string
  background :: string
  draw_list :: addr
  background_list :: addr
  draw_background :: bool
  setup_complete :: bool
  render_commands :: "command timed_queue"
  done_flag :: bool
  running :: bool
  heap :: "addr \<Rightarrow> item list"
  fresh :: addr
  effects :: "event list"

definition Data :: data where
  "Data =
     \<lparr>ms = 1000, color = ''black'', background = ''white'',
      draw_list = 0, background_list = 1, draw_background = False,
      setup_complete = False, render_commands = TimedQueue 1000,
      done_flag = False, running = False,
      heap = (\<lambda>_. []), fresh = 2, effects = []\<rparr>"

text \<open>
  \<^verbatim>\<open>start\<close> together with the setup block of the thread it waits for: the flag
  \<open>running\<close> is set, the window is filled and flipped, and \<open>setup_complete\<close> is raised
  by the thread and lowered again by \<^verbatim>\<open>start\<close>. The title and the dimensions of the
  window are left out. Neither \<^verbatim>\<open>start\<close> nor the thread assigns \<^verbatim>\<open>data.done\<close>.
\<close>

definition start :: "string \<Rightarrow> data \<Rightarrow> data" where
  "start bg d =
     (let d1 = d\<lparr>running := True\<rparr>;
          d2 = d1\<lparr>background := bg\<rparr>;
          d3 = d2\<lparr>effects := effects d2 @ [Filled bg, Flipped]\<rparr>;
          d4 = d3\<lparr>setup_complete := True\<rparr>
      in d4\<lparr>setup_complete := False\<rparr>)"

definition set_speed :: "int \<Rightarrow> data \<Rightarrow> data" where
  "set_speed speed d =
     (let speed1 = (if speed < 1 then 1 else if speed > 10 then 10 else speed);
          d1 = d\<lparr>ms := 33 + 197 * (10 - speed1)\<rparr>
      in d1\<lparr>render_commands := set_cooldown (of_int (ms d1)) (render_commands d1)\<rparr>)"

definition set_color :: "string \<Rightarrow> data \<Rightarrow> data" where
  "set_color new_color d = d\<lparr>color := new_color\<rparr>"

definition list_append :: "addr \<Rightarrow> item \<Rightarrow> data \<Rightarrow> data" where
  "list_append a x d = d\<lparr>heap := (heap d)(a := heap d a @ [x])\<rparr>"

definition list_clear :: "addr \<Rightarrow> data \<Rightarrow> data" where
  "list_clear a d = d\<lparr>heap := (heap d)(a := [])\<rparr>"

text \<open>\<^verbatim>\<open>list.copy()\<close>: a new object with the same contents; its address is returned.\<close>

definition list_copy :: "addr \<Rightarrow> data \<Rightarrow> addr \<times> data" where
  "list_copy a d = (fresh d, d\<lparr>heap := (heap d)(fresh d := heap d a), fresh := Suc (fresh d)\<rparr>)"

definition add_draw_item :: "item \<Rightarrow> data \<Rightarrow> data" where
  "add_draw_item draw_function d =
     (let d1 = (if draw_background d then list_append (background_list d) draw_function d else d)
      in list_append (draw_list d1) draw_function d1)"

definition background_begin :: "data \<Rightarrow> data" where
  "background_begin d = d\<lparr>draw_background := True\<rparr>"

definition background_end :: "data \<Rightarrow> data" where
  "background_end d = d\<lparr>draw_background := False\<rparr>"

text \<open>\<^verbatim>\<open>draw\<close>: \<^verbatim>\<open>ls = data.draw_list.copy()\<close>, push, clear.\<close>

definition draw :: "data \<Rightarrow> data" where
  "draw d =
     (let (ls, d1) = list_copy (draw_list d) d;
          d2 = d1\<lparr>render_commands := push (Do_draw False ls) (render_commands d1)\<rparr>
      in list_clear (draw_list d2) d2)"

text \<open>\<^verbatim>\<open>redraw\<close>: \<^verbatim>\<open>ls = data.draw_list\<close> (the same object), push, clear.\<close>

definition redraw :: "data \<Rightarrow> data" where
  "redraw d =
     (let ls = draw_list d;
          d1 = d\<lparr>render_commands := push (Do_draw True ls) (render_commands d)\<rparr>
      in list_clear (draw_list d1) d1)"

text \<open>Calling a draw item: it paints, or it raises.\<close>

fun call_item :: "item \<Rightarrow> data \<Rightarrow> outcome \<times> data" where
  "call_item (Paints k) d = (Returned, d\<lparr>effects := effects d @ [Painted k]\<rparr>)"
| "call_item (Throws k) d = (Raised k, d)"

text \<open>
  The first loop of \<^verbatim>\<open>do_draw\<close>, \<^verbatim>\<open>for i in data.background_list: i()\<close>: an exception
  leaves the loop.
\<close>

fun background_loop :: "item list \<Rightarrow> data \<Rightarrow> outcome \<times> data" where
  "background_loop [] d = (Returned, d)"
| "background_loop (i # rest) d =
     (case call_item i d of
        (Raised e, d1) \<Rightarrow> (Raised e, d1)
      | (Returned, d1) \<Rightarrow> background_loop rest d1)"

text \<open>
  The second loop, with \<^verbatim>\<open>try: i()\<close> and a handler that prints the error and goes on.
\<close>

fun draw_loop :: "item list \<Rightarrow> data \<Rightarrow> data" where
  "draw_loop [] d = d"
| "draw_loop (i # rest) d =
     (case call_item i d of
        (Raised e, d1) \<Rightarrow> draw_loop rest (d1\<lparr>effects := effects d1 @ [Reported e]\<rparr>)
      | (Returned, d1) \<Rightarrow> draw_loop rest d1)"

definition do_draw :: "bool \<Rightarrow> addr \<Rightarrow> data \<Rightarrow> outcome \<times> data" where
  "do_draw refresh ls d =
     (case (if refresh
            then background_loop (heap d (background_list d))
                   (d\<lparr>effects := effects d @ [Filled (background d)]\<rparr>)
            else (Returned, d)) of
        (Raised e, d1) \<Rightarrow> (Raised e, d1)
      | (Returned, d1) \<Rightarrow>
          (let d2 = draw_loop (heap d1 ls) d1;
               d3 = list_clear ls d2
           in (Returned, d3\<lparr>effects := effects d3 @ [Flipped]\<rparr>)))"

section \<open>The render thread\<close>

text \<open>
  The rendering block of one iteration of \<^verbatim>\<open>pygame_loop\<close>: pop from the queue and, if
  something came out, call it (the test \<^verbatim>\<open>if el\<close> holds of every queued element, a list
  of two entries). An exception of the command leaves the thread's function.
\<close>

definition render_step :: "rat \<Rightarrow> rat \<Rightarrow> data \<Rightarrow> outcome \<times> data" where
  "render_step now1 now2 d =
     (let (el, q) = pop now1 now2 (render_commands d);
          d1 = d\<lparr>render_commands := q\<rparr>
      in case el of
           None \<Rightarrow> (Returned, d1)
         | Some (Do_draw refresh ls) \<Rightarrow> do_draw refresh ls d1)"

datatype pg_event = QUIT | Other_event nat

text \<open>The body of \<^verbatim>\<open>for event in pygame.event.get()\<close>.\<close>

definition handle_event :: "pg_event \<Rightarrow> data \<Rightarrow> data" where
  "handle_event ev d = (if ev = QUIT \<and> done_flag d then d\<lparr>running := False\<rparr> else d)"

text \<open>\<^verbatim>\<open>done\<close> sets the flag under the lock; the join that follows changes no state.\<close>

definition done_call :: "data \<Rightarrow> data" where
  "done_call d = d\<lparr>done_flag := True\<rparr>"

text \<open>
  The two threads share \<open>data\<close>. The render thread takes the lock around its rendering
  block and around the handling of each event; \<^verbatim>\<open>draw\<close>, \<^verbatim>\<open>redraw\<close> and \<^verbatim>\<open>done\<close>
  take it too. A run of the program is taken to be an interleaving of these steps and of
  the other calls of the API (which do not take the lock; each is a single assignment or
  append). The steps of the render thread are offered in every state, also when the loop
  has been left, which can only add runs.
\<close>

datatype action =
    Call_start string
  | Call_set_speed int
  | Call_set_color string
  | Call_add_draw_item item
  | Call_background_begin
  | Call_background_end
  | Call_draw
  | Call_redraw
  | Call_done
  | Loop_render rat rat
  | Loop_event pg_event

fun exec :: "action \<Rightarrow> data \<Rightarrow> data" where
  "exec (Call_start bg) d = start bg d"
| "exec (Call_set_speed n) d = set_speed n d"
| "exec (Call_set_color c) d = set_color c d"
| "exec (Call_add_draw_item i) d = add_draw_item i d"
| "exec Call_background_begin d = background_begin d"
| "exec Call_background_end d = background_end d"
| "exec Call_draw d = draw d"
| "exec Call_redraw d = redraw d"
| "exec Call_done d = done_call d"
| "exec (Loop_render now1 now2) d = snd (render_step now1 now2 d)"
| "exec (Loop_event ev) d = handle_event ev d"

fun run :: "action list \<Rightarrow> data \<Rightarrow> data" where
  "run [] d = d"
| "run (a # rest) d = run rest (exec a d)"

text \<open>The list objects of \<open>data\<close> are allocated and distinct.\<close>

definition store_ok :: "data \<Rightarrow> bool" where
  "store_ok d \<longleftrightarrow>
     draw_list d < fresh d \<and> background_list d < fresh d \<and> draw_list d \<noteq> background_list d"

section \<open>Operations on the queue alone\<close>

datatype 'a queue_op = Push 'a | Pop rat rat

text \<open>Runs a sequence of pushes and polls; returns what the polls gave, in order.\<close>

fun run_ops :: "'a queue_op list \<Rightarrow> 'a timed_queue \<Rightarrow> 'a list \<times> 'a timed_queue" where
  "run_ops [] q = ([], q)"
| "run_ops (Push x # rest) q = run_ops rest (push x q)"
| "run_ops (Pop now1 now2 # rest) q =
     (case pop now1 now2 q of
        (None, q1) \<Rightarrow> run_ops rest q1
      | (Some x, q1) \<Rightarrow> (case run_ops rest q1 of (out, q2) \<Rightarrow> (x # out, q2)))"

fun pushed :: "'a queue_op list \<Rightarrow> 'a list" where
  "pushed [] = []"
| "pushed (Push x # rest) = x # pushed rest"
| "pushed (Pop now1 now2 # rest) = pushed rest"

text \<open>What an item leaves in \<open>effects\<close> when the second loop of \<^verbatim>\<open>do_draw\<close> calls it.\<close>

fun item_event :: "item \<Rightarrow> event" where
  "item_event (Paints k) = Painted k"
| "item_event (Throws k) = Reported k"

fun paints :: "item \<Rightarrow> bool" where
  "paints (Paints k) = True"
| "paints (Throws k) = False"

text \<open>How the first loop of \<^verbatim>\<open>do_draw\<close> ends on a list: at its first raising item.\<close>

fun first_raise :: "item list \<Rightarrow> outcome" where
  "first_raise [] = Returned"
| "first_raise (Paints k # rest) = first_raise rest"
| "first_raise (Throws k # rest) = Raised k"

text \<open>Whether a queued composite refers to the list object at an address.\<close>

fun refers :: "addr \<Rightarrow> command \<Rightarrow> bool" where
  "refers a (Do_draw refresh ls) = (ls = a)"

text \<open>
  The queued composites refer to allocated objects, and at most one of them to any object
  other than the pending list (each \<^verbatim>\<open>draw\<close> makes its own copy).
\<close>

definition queue_ok :: "data \<Rightarrow> bool" where
  "queue_ok d \<longleftrightarrow>
     list_all (\<lambda>c. case c of Do_draw refresh ls \<Rightarrow> ls < fresh d)
       (elements (render_commands d))"

text \<open>
  The copy at address \<open>a\<close> is intact: it is an object of its own, at most one queued
  composite refers to it, and while one does it holds the items \<open>xs\<close>.
\<close>

definition kept :: "addr \<Rightarrow> item list \<Rightarrow> data \<Rightarrow> bool" where
  "kept a xs d \<longleftrightarrow>
     a < fresh d \<and> a \<noteq> draw_list d \<and> a \<noteq> background_list d \<and>
     length (filter (refers a) (elements (render_commands d))) \<le> 1 \<and>
     (filter (refers a) (elements (render_commands d)) = [] \<or> heap d a = xs)"

section \<open>Proofs about the queue\<close>

lemma priv_pop_Nil: "elements q = [] \<Longrightarrow> priv_pop q = (None, q)"
  by (simp add: priv_pop_def)

lemma priv_pop_Cons:
  "elements q = x # xs \<Longrightarrow> priv_pop q = (Some x, q\<lparr>elements := xs\<rparr>)"
  by (simp add: priv_pop_def)

lemma pop_closed:
  "accumulated now2 q \<le> cooldown q \<Longrightarrow>
   pop now1 now2 q = (None, q\<lparr>time_since := accumulated now2 q, t_last := now1\<rparr>)"
  by (simp add: pop_def accumulated_def Let_def)

lemma pop_open_Nil:
  "cooldown q < accumulated now2 q \<Longrightarrow> elements q = [] \<Longrightarrow>
   pop now1 now2 q = (None, q\<lparr>time_since := 0, t_last := now1\<rparr>)"
  by (simp add: pop_def accumulated_def Let_def priv_pop_def)

lemma pop_open_Cons:
  "cooldown q < accumulated now2 q \<Longrightarrow> elements q = x # xs \<Longrightarrow>
   pop now1 now2 q = (Some x, q\<lparr>elements := xs, time_since := 0, t_last := now1\<rparr>)"
  by (simp add: pop_def accumulated_def Let_def priv_pop_def)

lemma pop_elements:
  "pop now1 now2 q = (r, q1) \<Longrightarrow>
   (case r of None \<Rightarrow> elements q1 = elements q | Some x \<Rightarrow> elements q = x # elements q1)"
  by (cases "elements q") (auto simp: pop_def Let_def priv_pop_def split: if_splits)

lemma pop_open:
  "cooldown q < accumulated now2 q \<Longrightarrow>
   pop now1 now2 q =
     (case elements q of [] \<Rightarrow> None | x # _ \<Rightarrow> Some x,
      q\<lparr>elements := tl (elements q), time_since := 0, t_last := now1\<rparr>)"
  by (cases "elements q") (simp_all add: pop_open_Nil pop_open_Cons)

lemma fold_push: "fold push xs q = q\<lparr>elements := elements q @ xs\<rparr>"
  by (induction xs arbitrary: q) (simp_all add: push_def)

text \<open>
  C1, as the code has it. A poll compares the accumulated time with the cooldown by
  \<open>>\<close>, not \<open>\<ge>\<close>. It returns an element exactly when the accumulated time is strictly
  above the cooldown and the queue is not empty; the element is the head, which is
  removed. Whenever the accumulated time is above the cooldown it is reset to zero
  (also on the empty queue, where nothing is returned). Otherwise the poll returns
  nothing, the elements are unchanged and the accumulated time is kept.
\<close>

theorem pop_gate:
  "(fst (pop now1 now2 q) \<noteq> None \<longleftrightarrow> cooldown q < accumulated now2 q \<and> elements q \<noteq> []) \<and>
   (cooldown q < accumulated now2 q \<longrightarrow>
      pop now1 now2 q =
        (case elements q of [] \<Rightarrow> None | x # _ \<Rightarrow> Some x,
         q\<lparr>elements := tl (elements q), time_since := 0, t_last := now1\<rparr>)) \<and>
   (accumulated now2 q \<le> cooldown q \<longrightarrow>
      pop now1 now2 q = (None, q\<lparr>time_since := accumulated now2 q, t_last := now1\<rparr>))"
proof (cases "cooldown q < accumulated now2 q")
  case False
  then have "accumulated now2 q \<le> cooldown q" by simp
  then show ?thesis using pop_closed [of now2 q now1] by simp
next
  case gate: True
  show ?thesis
  proof (cases "elements q")
    case Nil
    then show ?thesis using gate pop_open_Nil [of q now2 now1] by simp
  next
    case (Cons x xs)
    then show ?thesis using gate pop_open_Cons [of q now2 x xs now1] by simp
  qed
qed

theorem pop_gate_witness:
  "cooldown (push (7::nat) (TimedQueue 500)) < accumulated 1 (push 7 (TimedQueue 500)) \<and>
   pop 1 1 (push (7::nat) (TimedQueue 500)) =
     (Some 7, \<lparr>elements = [], cooldown = 1/2, time_since = 0, t_last = 1\<rparr>) \<and>
   accumulated (1/4) (push (7::nat) (TimedQueue 500)) \<le> cooldown (push 7 (TimedQueue 500)) \<and>
   pop (1/4) (1/4) (push (7::nat) (TimedQueue 500)) =
     (None, \<lparr>elements = [7], cooldown = 1/2, time_since = 1/4, t_last = 1/4\<rparr>)"
  using pop_gate [of 1 1 "push (7::nat) (TimedQueue 500)"]
        pop_gate [of "1/4" "1/4" "push (7::nat) (TimedQueue 500)"]
  by (simp add: push_def TimedQueue_def accumulated_def)

text \<open>
  C1 as stated fails where the accumulated time equals the cooldown: a queue with a
  cooldown of 500 ms holding one element, polled for the first time when the clock
  reads 0.5 s, has accumulated exactly the cooldown and gives nothing.
\<close>

theorem pop_at_cooldown_counterexample:
  "accumulated (1/2) (push (7::nat) (TimedQueue 500)) \<ge> cooldown (push (7::nat) (TimedQueue 500)) \<and>
   elements (push (7::nat) (TimedQueue 500)) = [7] \<and>
   fst (pop (1/2) (1/2) (push (7::nat) (TimedQueue 500))) = None"
  by (simp add: push_def TimedQueue_def accumulated_def pop_def Let_def)

text \<open>
  C4, as the code has it. A poll that finds the gate closed (accumulated time not above
  the cooldown) returns nothing, leaves the elements alone and does not reset the
  accumulated time: the new value is the old one plus the clock delta, so it has not
  gone down if the clock has not gone back. A poll that passes the gate on an empty
  queue also returns nothing, and does reset the accumulated time to zero.
\<close>

theorem closed_poll_keeps_time:
  "(accumulated now2 q \<le> cooldown q \<longrightarrow>
      fst (pop now1 now2 q) = None \<and>
      time_since (snd (pop now1 now2 q)) = time_since q + (now2 - t_last q) \<and>
      elements (snd (pop now1 now2 q)) = elements q \<and>
      (t_last q \<le> now2 \<longrightarrow> time_since q \<le> time_since (snd (pop now1 now2 q)))) \<and>
   (cooldown q < accumulated now2 q \<and> elements q = [] \<longrightarrow>
      fst (pop now1 now2 q) = None \<and> time_since (snd (pop now1 now2 q)) = 0)"
  using pop_closed [of now2 q now1] pop_open_Nil [of q now2 now1]
  by (simp add: accumulated_def)

theorem closed_poll_keeps_time_witness:
  "accumulated (1/4) (TimedQueue 500 :: nat timed_queue) \<le> cooldown (TimedQueue 500 :: nat timed_queue) \<and>
   t_last (TimedQueue 500 :: nat timed_queue) \<le> 1/4 \<and>
   fst (pop (1/4) (1/4) (TimedQueue 500 :: nat timed_queue)) = None \<and>
   time_since (snd (pop (1/4) (1/4) (TimedQueue 500 :: nat timed_queue))) = 1/4 \<and>
   cooldown (TimedQueue 500 :: nat timed_queue) < accumulated 1 (TimedQueue 500 :: nat timed_queue) \<and>
   elements (TimedQueue 500 :: nat timed_queue) = [] \<and>
   time_since (snd (pop 1 1 (TimedQueue 500 :: nat timed_queue))) = 0"
  using closed_poll_keeps_time [of "1/4" "TimedQueue 500 :: nat timed_queue" "1/4"]
        closed_poll_keeps_time [of 1 "TimedQueue 500 :: nat timed_queue" 1]
  by (simp add: TimedQueue_def accumulated_def)

text \<open>
  C4 as stated fails on the empty queue: after a closed poll at 0.25 s has accumulated
  0.25 s, a poll at 1 s passes the gate, finds nothing to return, and leaves the
  accumulated time at zero.
\<close>

theorem empty_poll_resets_counterexample:
  "fst (pop 1 1 (snd (pop (1/4) (1/4) (TimedQueue 500 :: nat timed_queue)))) = None \<and>
   time_since (snd (pop (1/4) (1/4) (TimedQueue 500 :: nat timed_queue))) = 1/4 \<and>
   time_since (snd (pop 1 1 (snd (pop (1/4) (1/4) (TimedQueue 500 :: nat timed_queue))))) = 0"
  by (simp add: TimedQueue_def pop_def Let_def priv_pop_def)

text \<open>
  C10, as the code has it. On a freshly built queue both \<open>time_since\<close> and \<open>t_last\<close>
  are zero, so the first poll compares the clock reading itself with the cooldown. When
  the cooldown is below the clock reading the poll passes the gate and returns the head
  of what has been pushed (nothing if nothing has); when the clock reading is not above
  the cooldown the poll returns nothing.
\<close>

theorem first_pop:
  "(cooldown_ms / 1000 < now2 \<longrightarrow>
      accumulated now2 (fold push xs (TimedQueue cooldown_ms)) = now2 \<and>
      pop now1 now2 (fold push xs (TimedQueue cooldown_ms)) =
        (case xs of [] \<Rightarrow> None | x # _ \<Rightarrow> Some x,
         \<lparr>elements = tl xs, cooldown = cooldown_ms / 1000, time_since = 0, t_last = now1\<rparr>)) \<and>
   (now2 \<le> cooldown_ms / 1000 \<longrightarrow>
      fst (pop now1 now2 (fold push xs (TimedQueue cooldown_ms))) = None)"
proof -
  let ?q = "fold push xs (TimedQueue cooldown_ms)"
  have q: "?q = \<lparr>elements = xs, cooldown = cooldown_ms / 1000, time_since = 0, t_last = 0\<rparr>"
    by (simp add: fold_push TimedQueue_def)
  have acc: "accumulated now2 ?q = now2"
    by (simp add: q accumulated_def)
  have cd: "cooldown ?q = cooldown_ms / 1000"
    by (simp add: q)
  have opened: "pop now1 now2 ?q =
        (case xs of [] \<Rightarrow> None | x # _ \<Rightarrow> Some x,
         \<lparr>elements = tl xs, cooldown = cooldown_ms / 1000, time_since = 0, t_last = now1\<rparr>)"
    if "cooldown_ms / 1000 < now2"
  proof -
    have gate: "cooldown ?q < accumulated now2 ?q"
      using that by (simp only: acc cd)
    from pop_open [OF gate] show ?thesis by (simp add: q)
  qed
  have closed: "fst (pop now1 now2 ?q) = None" if "now2 \<le> cooldown_ms / 1000"
  proof -
    have "accumulated now2 ?q \<le> cooldown ?q"
      using that by (simp only: acc cd)
    from pop_closed [OF this] show ?thesis by simp
  qed
  show ?thesis using acc opened closed by blast
qed

theorem first_pop_witness:
  "(1000::rat) / 1000 < 1793750400 \<and>
   pop 1793750400 1793750400 (fold push [7::nat, 8] (TimedQueue 1000)) =
     (Some 7, \<lparr>elements = [8], cooldown = 1, time_since = 0, t_last = 1793750400\<rparr>) \<and>
   (1/2 :: rat) \<le> 1000 / 1000 \<and>
   fst (pop (1/2) (1/2) (fold push [7::nat, 8] (TimedQueue 1000))) = None"
  using first_pop [of 1000 1793750400 "[7::nat, 8]" 1793750400]
    first_pop [of 1000 "1/2" "[7::nat, 8]" "1/2"]
  by simp

text \<open>
  C10 as stated, for every positive cooldown, fails for a cooldown above the clock
  reading: with a cooldown of \<open>2 * 10^12\<close> ms and the clock at 1793750400 s since the
  epoch, the first poll gives nothing.
\<close>

theorem first_pop_counterexample:
  "cooldown (push (7::nat) (TimedQueue 2000000000000)) > 0 \<and>
   accumulated 1793750400 (push (7::nat) (TimedQueue 2000000000000)) = 1793750400 \<and>
   fst (pop 1793750400 1793750400 (push (7::nat) (TimedQueue 2000000000000))) = None"
  by (simp add: push_def TimedQueue_def accumulated_def pop_def Let_def)

lemma run_ops_fifo:
  "fst (run_ops ops q) @ elements (snd (run_ops ops q)) = elements q @ pushed ops"
proof (induction ops q rule: run_ops.induct)
  case (1 q)
  show ?case by simp
next
  case (2 x rest q)
  then show ?case by (simp add: push_def)
next
  case (3 now1 now2 rest q)
  show ?case
  proof (cases "pop now1 now2 q")
    case (Pair r q1)
    show ?thesis
    proof (cases r)
      case None
      then have "elements q1 = elements q"
        using Pair pop_elements [of now1 now2 q r q1] by simp
      then show ?thesis using 3 Pair None by simp
    next
      case (Some x)
      then have "elements q = x # elements q1"
        using Pair pop_elements [of now1 now2 q r q1] by simp
      then show ?thesis using 3 Pair Some by (auto split: prod.splits)
    qed
  qed
qed

section \<open>Proofs about \<^verbatim>\<open>set_speed\<close>\<close>

text \<open>
  C3, as the code has it. For every integer, \<^verbatim>\<open>set_speed\<close> clamps the level into
  1..10 and sets the cooldown to \<open>33 + 197 * (10 - level)\<close> ms; input 0 gives 1806 ms,
  input 11 gives 33 ms and input 5 gives 1018 ms.
\<close>

theorem set_speed_cooldown:
  "ms (set_speed speed d) = 33 + 197 * (10 - max 1 (min 10 speed)) \<and>
   cooldown (render_commands (set_speed speed d)) =
     of_int (33 + 197 * (10 - max 1 (min 10 speed))) / 1000 \<and>
   1 \<le> max 1 (min 10 speed) \<and> max 1 (min 10 speed) \<le> 10 \<and>
   ms (set_speed 0 d) = 1806 \<and> ms (set_speed 11 d) = 33 \<and> ms (set_speed 5 d) = 1018"
  by (simp add: set_speed_def set_cooldown_def Let_def max_def min_def)

text \<open>C3 as stated gives 1790 ms for input 0; the formula gives 1806 ms.\<close>

theorem set_speed_zero_counterexample:
  "ms (set_speed 0 Data) \<noteq> 1790 \<and>
   cooldown (render_commands (set_speed 0 Data)) \<noteq> 1790 / 1000"
  by (simp add: set_speed_def set_cooldown_def Let_def)

section \<open>Proofs about \<^verbatim>\<open>do_draw\<close>\<close>

lemma draw_loop_eq: "draw_loop xs d = d\<lparr>effects := effects d @ map item_event xs\<rparr>"
proof (induction xs arbitrary: d)
  case Nil
  show ?case by simp
next
  case (Cons i rest)
  show ?case by (cases i) (simp_all add: Cons.IH)
qed

lemma background_loop_eq:
  "background_loop xs d =
     (first_raise xs, d\<lparr>effects := effects d @ map item_event (takeWhile paints xs)\<rparr>)"
proof (induction xs arbitrary: d)
  case Nil
  show ?case by simp
next
  case (Cons i rest)
  show ?case by (cases i) (simp_all add: Cons.IH)
qed

lemma do_draw_plain:
  "do_draw False ls d =
     (Returned, d\<lparr>heap := (heap d)(ls := []),
                  effects := effects d @ map item_event (heap d ls) @ [Flipped]\<rparr>)"
  by (simp add: do_draw_def draw_loop_eq list_clear_def Let_def)

lemma do_draw_refresh:
  "do_draw True ls d =
     (case first_raise (heap d (background_list d)) of
        Raised e \<Rightarrow>
          (Raised e, d\<lparr>effects := effects d @ Filled (background d)
             # map item_event (takeWhile paints (heap d (background_list d)))\<rparr>)
      | Returned \<Rightarrow>
          (Returned, d\<lparr>heap := (heap d)(ls := []),
             effects := effects d @ Filled (background d)
               # map item_event (takeWhile paints (heap d (background_list d)))
               @ map item_event (heap d ls) @ [Flipped]\<rparr>))"
  by (simp add: do_draw_def background_loop_eq draw_loop_eq list_clear_def Let_def
      split: outcome.splits)

lemma first_raise_takeWhile: "first_raise xs = Returned \<Longrightarrow> takeWhile paints xs = xs"
  by (induction xs rule: first_raise.induct) simp_all

section \<open>Proofs about the shared state\<close>

lemmas api_defs = start_def set_speed_def set_color_def add_draw_item_def
  list_append_def list_clear_def list_copy_def background_begin_def background_end_def
  draw_def redraw_def done_call_def handle_event_def render_step_def do_draw_def
  pop_def priv_pop_def push_def set_cooldown_def TimedQueue_def Data_def Let_def

lemma do_draw_fields:
  "running (snd (do_draw r ls d)) = running d"
  "done_flag (snd (do_draw r ls d)) = done_flag d"
  "draw_list (snd (do_draw r ls d)) = draw_list d"
  "background_list (snd (do_draw r ls d)) = background_list d"
  "fresh (snd (do_draw r ls d)) = fresh d"
  by (cases r; simp add: do_draw_plain do_draw_refresh split: outcome.splits)+

lemma render_step_fields:
  "running (snd (render_step now1 now2 d)) = running d"
  "done_flag (snd (render_step now1 now2 d)) = done_flag d"
  "draw_list (snd (render_step now1 now2 d)) = draw_list d"
  "background_list (snd (render_step now1 now2 d)) = background_list d"
  "fresh (snd (render_step now1 now2 d)) = fresh d"
  by (simp_all add: render_step_def Let_def do_draw_fields
      split: prod.splits option.splits command.splits)

lemma exec_refs:
  "draw_list (exec a d) = draw_list d"
  "background_list (exec a d) = background_list d"
  "fresh d \<le> fresh (exec a d)"
  by (cases a; simp add: start_def set_speed_def set_color_def add_draw_item_def
      list_append_def list_clear_def list_copy_def background_begin_def background_end_def
      draw_def redraw_def done_call_def handle_event_def render_step_fields Let_def)+

lemma run_refs:
  "draw_list (run acts d) = draw_list d \<and> background_list (run acts d) = background_list d
   \<and> fresh d \<le> fresh (run acts d)"
proof (induction acts arbitrary: d)
  case Nil
  show ?case by simp
next
  case (Cons a rest)
  show ?case using Cons.IH [of "exec a d"] exec_refs [where a = a and d = d] by simp
qed

lemma store_ok_run: "store_ok d \<Longrightarrow> store_ok (run acts d)"
  using run_refs [of acts d] by (simp add: store_ok_def)

lemma store_ok_Data: "store_ok Data"
  by (simp add: store_ok_def Data_def)

lemma exec_flags:
  "done_flag (exec a d) = (a = Call_done \<or> done_flag d)"
  "running (exec a d) =
     (case a of Call_start bg \<Rightarrow> True
      | Loop_event ev \<Rightarrow> running d \<and> \<not> (ev = QUIT \<and> done_flag d)
      | _ \<Rightarrow> running d)"
  by (cases a; auto simp: start_def set_speed_def set_color_def add_draw_item_def
      list_append_def list_clear_def list_copy_def background_begin_def background_end_def
      draw_def redraw_def done_call_def handle_event_def render_step_fields Let_def)+

lemma run_without_done:
  "Call_done \<notin> set acts \<Longrightarrow> \<not> done_flag d \<Longrightarrow>
   \<not> done_flag (run acts d) \<and> (running d \<longrightarrow> running (run acts d))"
proof (induction acts arbitrary: d)
  case Nil
  then show ?case by simp
next
  case (Cons a rest)
  have a: "a \<noteq> Call_done" and rest: "Call_done \<notin> set rest" using Cons.prems by auto
  have nd: "\<not> done_flag (exec a d)" using a Cons.prems by (simp add: exec_flags)
  have r: "running d \<longrightarrow> running (exec a d)"
    using Cons.prems by (simp add: exec_flags split: action.splits)
  show ?case using Cons.IH [OF rest nd] r by simp
qed

text \<open>
  C6. In every state, a step of either thread takes \<open>running\<close> from true to false only
  if it is the handling of a window-close event and the flag \<open>done_flag\<close> is set. In a
  session in which \<^verbatim>\<open>done\<close> has not been called, whatever else the two threads have
  done, the flag is unset, the loop is still running, and a window-close event leaves it
  running.
\<close>

theorem close_needs_done:
  "(running d \<and> \<not> running (exec a d) \<longrightarrow> a = Loop_event QUIT \<and> done_flag d) \<and>
   (Call_done \<notin> set acts \<longrightarrow>
      \<not> done_flag (run acts (start bg Data)) \<and>
      running (run acts (start bg Data)) \<and>
      running (handle_event QUIT (run acts (start bg Data))))"
proof -
  have step: "running d \<and> \<not> running (exec a d) \<longrightarrow> a = Loop_event QUIT \<and> done_flag d"
    by (auto simp: exec_flags split: action.splits)
  have init: "\<not> done_flag (start bg Data)" "running (start bg Data)"
    by (simp_all add: start_def Data_def)
  have "Call_done \<notin> set acts \<longrightarrow>
      \<not> done_flag (run acts (start bg Data)) \<and> running (run acts (start bg Data))"
    using run_without_done [of acts "start bg Data"] init by simp
  then show ?thesis using step by (simp add: handle_event_def)
qed

theorem close_needs_done_witness:
  "running (done_call (start ''white'' Data)) \<and>
   \<not> running (exec (Loop_event QUIT) (done_call (start ''white'' Data))) \<and>
   done_flag (done_call (start ''white'' Data)) \<and>
   Call_done \<notin> set [Loop_event QUIT, Call_draw] \<and>
   running (run [Loop_event QUIT, Call_draw] (start ''white'' Data))"
  using close_needs_done [of "done_call (start ''white'' Data)" "Loop_event QUIT"
      "[Loop_event QUIT, Call_draw]" "''white''"]
  by (simp add: done_call_def start_def Data_def handle_event_def)

lemma add_draw_item_pending:
  "store_ok d \<Longrightarrow> heap (add_draw_item i d) (draw_list d) = heap d (draw_list d) @ [i]"
  by (simp add: add_draw_item_def list_append_def store_ok_def Let_def)

lemma add_draw_item_refs:
  "draw_list (add_draw_item i d) = draw_list d"
  "background_list (add_draw_item i d) = background_list d"
  "fresh (add_draw_item i d) = fresh d"
  by (simp_all add: add_draw_item_def list_append_def Let_def)

lemma fold_add_draw_item:
  "store_ok d \<Longrightarrow> heap (fold add_draw_item xs d) (draw_list d) = heap d (draw_list d) @ xs"
proof (induction xs arbitrary: d)
  case Nil
  show ?case by simp
next
  case (Cons i rest)
  have ok: "store_ok (add_draw_item i d)"
    using Cons.prems by (simp add: store_ok_def add_draw_item_refs)
  show ?case
    using Cons.IH [OF ok] add_draw_item_pending [OF Cons.prems, of i]
    by (simp add: add_draw_item_refs)
qed

text \<open>
  C8. In every state whose list objects are allocated and distinct, \<^verbatim>\<open>draw\<close> appends to
  the queue a composite with \<open>refresh = False\<close> that refers to a new list object holding
  the contents of the pending list, empties the pending list, and leaves the background
  list and its contents alone; and whatever the two threads do afterwards, executing that
  composite does not change the pending list.
\<close>

theorem draw_frame:
  "store_ok d \<longrightarrow>
     elements (render_commands (draw d)) = elements (render_commands d) @ [Do_draw False (fresh d)] \<and>
     fresh d \<noteq> draw_list d \<and>
     heap (draw d) (fresh d) = heap d (draw_list d) \<and>
     draw_list (draw d) = draw_list d \<and>
     heap (draw d) (draw_list d) = [] \<and>
     background_list (draw d) = background_list d \<and>
     heap (draw d) (background_list d) = heap d (background_list d) \<and>
     heap (snd (do_draw False (fresh d) (run acts (draw d)))) (draw_list d)
       = heap (run acts (draw d)) (draw_list d) \<and>
     draw_list (run acts (draw d)) = draw_list d"
proof
  assume ok: "store_ok d"
  have neq: "fresh d \<noteq> draw_list d" "fresh d \<noteq> background_list d"
    "draw_list d \<noteq> background_list d"
    using ok by (auto simp: store_ok_def)
  have here: "elements (render_commands (draw d)) = elements (render_commands d) @ [Do_draw False (fresh d)]"
    "heap (draw d) (fresh d) = heap d (draw_list d)"
    "draw_list (draw d) = draw_list d"
    "heap (draw d) (draw_list d) = []"
    "background_list (draw d) = background_list d"
    "heap (draw d) (background_list d) = heap d (background_list d)"
    using neq by (simp_all add: draw_def list_copy_def list_clear_def push_def Let_def)
  have later: "draw_list (run acts (draw d)) = draw_list d"
    using run_refs [of acts "draw d"] here(3) by simp
  have "heap (snd (do_draw False (fresh d) (run acts (draw d)))) (draw_list d)
       = heap (run acts (draw d)) (draw_list d)"
    using neq(1) by (simp add: do_draw_plain)
  then show "elements (render_commands (draw d)) = elements (render_commands d) @ [Do_draw False (fresh d)] \<and>
     fresh d \<noteq> draw_list d \<and>
     heap (draw d) (fresh d) = heap d (draw_list d) \<and>
     draw_list (draw d) = draw_list d \<and>
     heap (draw d) (draw_list d) = [] \<and>
     background_list (draw d) = background_list d \<and>
     heap (draw d) (background_list d) = heap d (background_list d) \<and>
     heap (snd (do_draw False (fresh d) (run acts (draw d)))) (draw_list d)
       = heap (run acts (draw d)) (draw_list d) \<and>
     draw_list (run acts (draw d)) = draw_list d"
    using here neq(1) later by simp
qed

theorem draw_frame_witness:
  "store_ok (add_draw_item (Paints 1) Data) \<and>
   elements (render_commands (draw (add_draw_item (Paints 1) Data))) = [Do_draw False 2] \<and>
   heap (draw (add_draw_item (Paints 1) Data)) 2 = [Paints 1] \<and>
   heap (draw (add_draw_item (Paints 1) Data)) 0 = [] \<and>
   heap (snd (do_draw False 2
       (run [Call_add_draw_item (Paints 5)] (draw (add_draw_item (Paints 1) Data))))) 0
     = [Paints 5]"
  using draw_frame [of "add_draw_item (Paints 1) Data" "[Call_add_draw_item (Paints 5)]"]
  by (simp add: store_ok_def api_defs)

text \<open>
  What \<^verbatim>\<open>draw\<close> captures is what its composite executes. The copy made by \<^verbatim>\<open>draw\<close>
  is referred to by its composite alone, and no step of either thread changes it before
  that composite is executed. So whenever the composite is still queued, whatever has
  happened in between, executing it paints (or reports) the items that were pending at
  the call of \<^verbatim>\<open>draw\<close>, in the order they were appended, and then flips.
\<close>

lemma do_draw_heap_other:
  "ls \<noteq> a \<Longrightarrow> heap (snd (do_draw r ls d)) a = heap d a"
  by (cases r; simp add: do_draw_plain do_draw_refresh split: outcome.splits)

lemma do_draw_queue:
  "render_commands (snd (do_draw r ls d)) = render_commands d"
  by (cases r; simp add: do_draw_plain do_draw_refresh split: outcome.splits)

lemma kept_render:
  assumes "kept a xs d"
  shows "kept a xs (snd (render_step now1 now2 d))"
proof (cases "pop now1 now2 (render_commands d)")
  case (Pair r q1)
  show ?thesis
  proof (cases r)
    case None
    then have els: "elements q1 = elements (render_commands d)"
      using Pair pop_elements [of now1 now2 "render_commands d" r q1] by simp
    have "snd (render_step now1 now2 d) = d\<lparr>render_commands := q1\<rparr>"
      using Pair None by (simp add: render_step_def)
    then show ?thesis using assms els by (simp add: kept_def)
  next
    case (Some c)
    then have els: "elements (render_commands d) = c # elements q1"
      using Pair pop_elements [of now1 now2 "render_commands d" r q1] by simp
    obtain refresh ls where c: "c = Do_draw refresh ls" by (cases c)
    let ?d1 = "d\<lparr>render_commands := q1\<rparr>"
    have step: "snd (render_step now1 now2 d) = snd (do_draw refresh ls ?d1)"
      using Pair Some c by (simp add: render_step_def)
    have refs: "fresh (snd (do_draw refresh ls ?d1)) = fresh d"
      "draw_list (snd (do_draw refresh ls ?d1)) = draw_list d"
      "background_list (snd (do_draw refresh ls ?d1)) = background_list d"
      "elements (render_commands (snd (do_draw refresh ls ?d1))) = elements q1"
      by (simp_all add: do_draw_fields do_draw_queue)
    show ?thesis
    proof (cases "ls = a")
      case True
      then have "filter (refers a) (elements q1) = []"
        using assms els c by (simp add: kept_def)
      then show ?thesis using assms step refs by (simp add: kept_def)
    next
      case False
      then have same: "filter (refers a) (elements q1)
          = filter (refers a) (elements (render_commands d))"
        using els c by simp
      have "heap (snd (do_draw refresh ls ?d1)) a = heap d a"
        using False do_draw_heap_other [of ls a refresh ?d1] by simp
      then show ?thesis using assms step refs same by (simp add: kept_def)
    qed
  qed
qed

lemma kept_exec: "kept a xs d \<Longrightarrow> kept a xs (exec act d)"
proof (cases act)
  case (Loop_render now1 now2)
  assume "kept a xs d"
  then show ?thesis using Loop_render kept_render [of a xs d now1 now2] by simp
qed (auto simp: kept_def start_def set_speed_def set_color_def add_draw_item_def
      list_append_def list_clear_def list_copy_def background_begin_def background_end_def
      draw_def redraw_def done_call_def handle_event_def push_def set_cooldown_def Let_def)

lemma kept_run: "kept a xs d \<Longrightarrow> kept a xs (run acts d)"
  by (induction acts arbitrary: d) (simp_all add: kept_exec)

lemma queue_ok_exec: "store_ok d \<Longrightarrow> queue_ok d \<Longrightarrow> queue_ok (exec act d)"
proof (cases act)
  case (Loop_render now1 now2)
  assume ok: "store_ok d" "queue_ok d"
  obtain r q1 where p: "pop now1 now2 (render_commands d) = (r, q1)"
    by (cases "pop now1 now2 (render_commands d)")
  have sub: "set (elements q1) \<subseteq> set (elements (render_commands d))"
    using pop_elements [OF p] by (cases r) auto
  have "elements (render_commands (snd (render_step now1 now2 d))) = elements q1"
    using p by (simp add: render_step_def do_draw_queue Let_def split: option.splits command.splits)
  then show ?thesis
    using ok sub Loop_render
    by (auto simp: queue_ok_def list_all_iff render_step_fields split: command.splits)
qed (auto simp: queue_ok_def store_ok_def list_all_iff start_def set_speed_def set_color_def
      add_draw_item_def list_append_def list_clear_def list_copy_def background_begin_def
      background_end_def draw_def redraw_def done_call_def handle_event_def push_def
      set_cooldown_def Let_def split: command.splits)

lemma exec_store_ok: "store_ok d \<Longrightarrow> store_ok (exec act d)"
  using store_ok_run [of d "[act]"] by simp

lemma queue_ok_run: "store_ok d \<Longrightarrow> queue_ok d \<Longrightarrow> queue_ok (run acts d)"
  by (induction acts arbitrary: d) (simp_all add: queue_ok_exec exec_store_ok)

lemma queue_ok_Data: "queue_ok Data"
  by (simp add: queue_ok_def Data_def TimedQueue_def)

lemma refers_case: "refers a c = (case c of Do_draw refresh ls \<Rightarrow> ls = a)"
  by (cases c) simp

lemma kept_draw:
  "store_ok d \<Longrightarrow> queue_ok d \<Longrightarrow> kept (fresh d) (heap d (draw_list d)) (draw d)"
proof -
  assume ok: "store_ok d" "queue_ok d"
  have "filter (refers (fresh d)) (elements (render_commands d)) = []"
    using ok(2)
    by (auto simp: queue_ok_def list_all_iff filter_empty_conv refers_case split: command.splits)
  then show ?thesis
    using ok(1)
    by (simp add: kept_def store_ok_def draw_def list_copy_def list_clear_def push_def Let_def)
qed

lemma draw_items_executed:
  assumes "store_ok d" "queue_ok d"
    and "Do_draw False (fresh d) \<in> set (elements (render_commands (run acts (draw d))))"
  shows "do_draw False (fresh d) (run acts (draw d)) =
     (Returned, (run acts (draw d))
        \<lparr>heap := (heap (run acts (draw d)))(fresh d := []),
         effects := effects (run acts (draw d))
           @ map item_event (heap d (draw_list d)) @ [Flipped]\<rparr>)"
proof -
  have "kept (fresh d) (heap d (draw_list d)) (run acts (draw d))"
    using assms(1,2) by (simp add: kept_draw kept_run)
  moreover have "filter (refers (fresh d)) (elements (render_commands (run acts (draw d)))) \<noteq> []"
    using assms(3) by (force simp: filter_empty_conv)
  ultimately have "heap (run acts (draw d)) (fresh d) = heap d (draw_list d)"
    by (simp add: kept_def)
  then show ?thesis by (simp add: do_draw_plain)
qed

section \<open>Where the code departs from its description\<close>

text \<open>
  C2. \<^verbatim>\<open>redraw\<close> does not copy the pending list as \<^verbatim>\<open>draw\<close> does: the composite it
  appends refers to the pending list object itself, which \<^verbatim>\<open>redraw\<close> then empties. So
  the commands pending at the call are gone from the composite: after an item has been
  added and \<^verbatim>\<open>redraw\<close> called, the render thread fills and flips without painting the
  item, where the same run with \<^verbatim>\<open>draw\<close> paints it.
\<close>

theorem redraw_loses_pending:
  "elements (render_commands (redraw d)) = elements (render_commands d) @ [Do_draw True (draw_list d)] \<and>
   heap (redraw d) (draw_list d) = [] \<and>
   fst (render_step 10 10 (redraw (add_draw_item (Paints 1) (start ''white'' Data)))) = Returned \<and>
   effects (snd (render_step 10 10 (redraw (add_draw_item (Paints 1) (start ''white'' Data))))) =
     [Filled ''white'', Flipped, Filled ''white'', Flipped] \<and>
   effects (snd (render_step 10 10 (draw (add_draw_item (Paints 1) (start ''white'' Data))))) =
     [Filled ''white'', Flipped, Painted 1, Flipped]"
  by (simp add: api_defs)

text \<open>
  C5. Only the second loop of \<^verbatim>\<open>do_draw\<close> catches what an item raises. An item that
  raises is added while the background is captured, so it is in both lists; then
  \<^verbatim>\<open>draw\<close>, \<^verbatim>\<open>redraw\<close>, and one more item are called. The composite of \<^verbatim>\<open>draw\<close> reports
  the error and flips. The composite of \<^verbatim>\<open>redraw\<close> fills the window and then the
  exception of the background item leaves \<^verbatim>\<open>do_draw\<close> and the render block: the item
  added last is not painted and the buffer is not flipped.
\<close>

theorem background_raise_escapes:
  "fst (render_step 10 10
     (run [Call_start ''white'', Call_background_begin, Call_add_draw_item (Throws 3),
           Call_background_end, Call_draw, Call_redraw, Call_add_draw_item (Paints 4)] Data))
     = Returned \<and>
   effects (snd (render_step 10 10
     (run [Call_start ''white'', Call_background_begin, Call_add_draw_item (Throws 3),
           Call_background_end, Call_draw, Call_redraw, Call_add_draw_item (Paints 4)] Data)))
     = [Filled ''white'', Flipped, Reported 3, Flipped] \<and>
   fst (render_step 20 20 (snd (render_step 10 10
     (run [Call_start ''white'', Call_background_begin, Call_add_draw_item (Throws 3),
           Call_background_end, Call_draw, Call_redraw, Call_add_draw_item (Paints 4)] Data))))
     = Raised 3 \<and>
   effects (snd (render_step 20 20 (snd (render_step 10 10
     (run [Call_start ''white'', Call_background_begin, Call_add_draw_item (Throws 3),
           Call_background_end, Call_draw, Call_redraw, Call_add_draw_item (Paints 4)] Data)))))
     = [Filled ''white'', Flipped, Reported 3, Flipped, Filled ''white'']"
  by (simp add: api_defs)

lemma redraw_then_execute:
  "store_ok d \<Longrightarrow> first_raise (heap d (background_list d)) = Returned \<Longrightarrow>
   do_draw True (draw_list d) (redraw d) =
     (Returned, (redraw d)\<lparr>effects := effects d @ Filled (background d)
        # map item_event (heap d (background_list d)) @ [Flipped]\<rparr>)"
  by (simp add: do_draw_refresh first_raise_takeWhile redraw_def list_clear_def
      store_ok_def Let_def)

text \<open>
  C7. \<^verbatim>\<open>redraw\<close> is called when the pending list is empty (the one background item
  has been drawn by an earlier \<^verbatim>\<open>draw\<close>), and one more item is added before the render
  thread gets to the composite. Since the composite refers to the pending list itself,
  its execution paints, after the fill and the background item, the item added later
  too, and removes it from the pending list.
\<close>

theorem redraw_runs_later_items:
  "heap (run [Call_start ''white'', Call_background_begin, Call_add_draw_item (Paints 1),
           Call_background_end, Call_draw, Loop_render 10 10] Data) 0 = [] \<and>
   fst (render_step 20 20
     (run [Call_start ''white'', Call_background_begin, Call_add_draw_item (Paints 1),
           Call_background_end, Call_draw, Loop_render 10 10,
           Call_redraw, Call_add_draw_item (Paints 2)] Data)) = Returned \<and>
   effects (snd (render_step 20 20
     (run [Call_start ''white'', Call_background_begin, Call_add_draw_item (Paints 1),
           Call_background_end, Call_draw, Loop_render 10 10,
           Call_redraw, Call_add_draw_item (Paints 2)] Data)))
     = [Filled ''white'', Flipped, Painted 1, Flipped,
        Filled ''white'', Painted 1, Painted 2, Flipped] \<and>
   heap (snd (render_step 20 20
     (run [Call_start ''white'', Call_background_begin, Call_add_draw_item (Paints 1),
           Call_background_end, Call_draw, Loop_render 10 10,
           Call_redraw, Call_add_draw_item (Paints 2)] Data))) 0 = []"
  by (simp add: api_defs)

text \<open>
  C9. The queue gives its composites back in push order, and the second loop of
  \<^verbatim>\<open>do_draw\<close> goes through its list from first to last; but the items a composite of
  \<^verbatim>\<open>redraw\<close> captured are not the ones it executes. Three items are appended and
  \<^verbatim>\<open>redraw\<close> is called: the composite refers to the pending list, emptied by
  \<^verbatim>\<open>redraw\<close>, and its execution fills and flips without running any of the three. The
  same run with \<^verbatim>\<open>draw\<close> runs the three in the order appended.
\<close>

theorem redraw_skips_captured_items:
  "heap (run [Call_start ''white'', Call_add_draw_item (Paints 1),
        Call_add_draw_item (Paints 2), Call_add_draw_item (Paints 3)] Data) 0
     = [Paints 1, Paints 2, Paints 3] \<and>
   elements (render_commands (run [Call_start ''white'', Call_add_draw_item (Paints 1),
        Call_add_draw_item (Paints 2), Call_add_draw_item (Paints 3), Call_redraw] Data))
     = [Do_draw True 0] \<and>
   fst (render_step 10 10 (run [Call_start ''white'', Call_add_draw_item (Paints 1),
        Call_add_draw_item (Paints 2), Call_add_draw_item (Paints 3), Call_redraw] Data))
     = Returned \<and>
   effects (snd (render_step 10 10 (run [Call_start ''white'', Call_add_draw_item (Paints 1),
        Call_add_draw_item (Paints 2), Call_add_draw_item (Paints 3), Call_redraw] Data)))
     = [Filled ''white'', Flipped, Filled ''white'', Flipped] \<and>
   effects (snd (render_step 10 10 (run [Call_start ''white'', Call_add_draw_item (Paints 1),
        Call_add_draw_item (Paints 2), Call_add_draw_item (Paints 3), Call_draw] Data)))
     = [Filled ''white'', Flipped, Painted 1, Painted 2, Painted 3, Flipped]"
  by (simp add: api_defs)

end
